theory Spec2Isabelle
  imports Complex_Main "HOL-Library.Multiset"
begin

section \<open>Log analyzer: parser and pattern detector\<close>

text \<open>
  A shallow embedding of \<^verbatim>\<open>logAnalyzer.ts\<close>: \<^verbatim>\<open>parseLogEntries\<close> and
  \<^verbatim>\<open>analyzeLogPatterns\<close>.

  Conventions of the model.
  \<^item> A JavaScript string is a \<open>string\<close>; a \<open>char\<close> stands for the UTF-16 code unit of
    the same number, so the model covers the strings whose code units are below 256.
  \<^item> A \<^verbatim>\<open>Date\<close> is its time value: \<open>Some t\<close> for \<open>t\<close> milliseconds since the epoch,
    \<open>None\<close> for an Invalid Date, whose \<^verbatim>\<open>getTime()\<close> is NaN. The difference of two
    time values is an \<open>int option\<close> in the same way.
  \<^item> The arguments \<^verbatim>\<open>timeWindowMs\<close> and \<^verbatim>\<open>minSequenceLength\<close> are JavaScript numbers:
    a finite value, an infinity or NaN.
  \<^item> Reading an array out of range gives \<^verbatim>\<open>undefined\<close>, and reading a property of
    \<^verbatim>\<open>undefined\<close> throws a TypeError: array reads return \<open>error + 'a\<close>.
  \<^item> The code reaches two behaviours that ECMAScript leaves to the implementation: what
    \<^verbatim>\<open>new Date\<close> makes of a string outside the date-time format, and the order in which
    \<^verbatim>\<open>sort\<close> leaves an array when the comparator is not consistent. They are the two
    fields of an \<open>engine\<close>, which every operation takes as its first argument; a theorem
    about every \<open>eng\<close> is about every implementation.
\<close>

subsection \<open>Data\<close>

datatype error = TypeError

datatype number = Finite real | PlusInfinity | MinusInfinity | NaN

record entry =
  timestamp :: "int option"
  event :: string

record patternWindow =
  events :: "string list"
  startTime :: "int option"
  endTime :: "int option"

record engine =
  fallbackDate :: "string \<Rightarrow> int option"
  inconsistentSort :: "entry list \<Rightarrow> entry list"

subsection \<open>Character classes of the regular expression\<close>

definition isDigit :: "char \<Rightarrow> bool" where
  \<comment> \<open>\<^verbatim>\<open>\d\<close>\<close>
  "isDigit c = (c \<in> set ''0123456789'')"

definition isLineTerminator :: "char \<Rightarrow> bool" where
  \<comment> \<open>line feed and carriage return: the code units below 256 that \<^verbatim>\<open>.\<close> refuses\<close>
  "isLineTerminator c = (c = CHR 0x0A \<or> c = CHR 0x0D)"

definition isSpace :: "char \<Rightarrow> bool" where
  \<comment> \<open>\<^verbatim>\<open>\s\<close>, and what \<^verbatim>\<open>trim\<close> strips: tab, LF, VT, FF, CR, space, no-break space\<close>
  "isSpace c = (c \<in> set [CHR 0x09, CHR 0x0A, CHR 0x0B, CHR 0x0C, CHR 0x0D, CHR 0x20, CHR 0xA0])"

subsection \<open>Splitting and trimming\<close>

fun splitLines :: "string \<Rightarrow> string list" where
  \<comment> \<open>\<^verbatim>\<open>logContent.split('\n')\<close>\<close>
  "splitLines [] = [[]]"
| "splitLines (c # cs) =
     (if c = CHR 0x0A then [] # splitLines cs
      else (case splitLines cs of
              [] \<Rightarrow> [[c]]
            | l # ls \<Rightarrow> (c # l) # ls))"

definition trim :: "string \<Rightarrow> string" where
  "trim s = rev (dropWhile isSpace (rev (dropWhile isSpace s)))"

subsection \<open>The regular expression\<close>

text \<open>
  \<^verbatim>\<open>/^(\d{4}-\d{2}-\d{2}T\d{2}:\d{2}:\d{2}.\d{3}Z)\s+(\S+)(?:\s+(.*))?$/\<close>

  Each piece of the first group consumes a fixed number of characters, so that group
  is matched by a chain of consumers, each returning the rest of the input. The
  character between the seconds and the milliseconds is an unescaped \<^verbatim>\<open>.\<close>: any
  character but a line terminator.
\<close>

fun digits :: "nat \<Rightarrow> string \<Rightarrow> string option" where
  \<comment> \<open>\<^verbatim>\<open>\d{n}\<close>\<close>
  "digits 0 s = Some s"
| "digits (Suc n) [] = None"
| "digits (Suc n) (c # cs) = (if isDigit c then digits n cs else None)"

fun lit :: "char \<Rightarrow> string \<Rightarrow> string option" where
  \<comment> \<open>a literal character\<close>
  "lit c [] = None"
| "lit c (d # ds) = (if d = c then Some ds else None)"

fun dot :: "string \<Rightarrow> string option" where
  \<comment> \<open>\<^verbatim>\<open>.\<close>\<close>
  "dot [] = None"
| "dot (c # cs) = (if isLineTerminator c then None else Some cs)"

definition timestampToken :: "string \<Rightarrow> string option" where
  \<comment> \<open>the first group; returns what follows it\<close>
  "timestampToken s =
     Option.bind (Option.bind (Option.bind (Option.bind (Option.bind (Option.bind
     (Option.bind (Option.bind (Option.bind (Option.bind (Option.bind (Option.bind
     (Option.bind (digits 4 s)
       (lit (CHR ''-''))) (digits 2)) (lit (CHR ''-''))) (digits 2)) (lit (CHR ''T'')))
       (digits 2)) (lit (CHR '':''))) (digits 2)) (lit (CHR '':''))) (digits 2))
       dot) (digits 3)) (lit (CHR ''Z''))"

text \<open>
  After the first group: \<^verbatim>\<open>\s+\<close> is greedy and \<^verbatim>\<open>\S+\<close> must follow, so it takes the
  whole run of white space; \<^verbatim>\<open>(\S+)\<close> takes the whole run of other characters (a
  shorter one would leave a non-space character, which neither \<^verbatim>\<open>\s+\<close> nor \<^verbatim>\<open>$\<close>
  accepts). If nothing is left the optional group is skipped and the third capture is
  undefined (\<open>None\<close>). Otherwise the optional group must reach the end of the line:
  \<^verbatim>\<open>\s+\<close> takes the whole run of white space and \<^verbatim>\<open>(.*)\<close> the rest, which matches
  only if the rest has no line terminator; giving white space back to \<^verbatim>\<open>(.*)\<close> cannot
  help, since the rest would still hold the terminator.
\<close>

definition matchLog :: "string \<Rightarrow> (string \<times> string \<times> string option) option" where
  \<comment> \<open>\<^verbatim>\<open>line.match(logRegex)\<close>: the three captures\<close>
  "matchLog line =
     (case timestampToken line of
        None \<Rightarrow> None
      | Some r \<Rightarrow>
          (let timestampStr = take (length line - length r) line;
               r1 = dropWhile isSpace r;
               ev = takeWhile (\<lambda>c. \<not> isSpace c) r1;
               r2 = dropWhile (\<lambda>c. \<not> isSpace c) r1;
               details = dropWhile isSpace r2
           in if takeWhile isSpace r = [] then None
              else if ev = [] then None
              else if r2 = [] then Some (timestampStr, ev, None)
              else if list_ex isLineTerminator details then None
              else Some (timestampStr, ev, Some details)))"

subsection \<open>The Date constructor\<close>

text \<open>
  \<^verbatim>\<open>new Date(timestampStr)\<close>. The regular expression passes on a string of the shape
  \<^verbatim>\<open>YYYY-MM-DDTHH:mm:ss?sssZ\<close>, where \<^verbatim>\<open>?\<close> is any character but a line terminator.

  With \<^verbatim>\<open>.\<close> in that place the string is in the ECMAScript date-time format. An
  illegal field (month outside 01-12, day outside 01-31, hour above 24, minute or second
  above 59, hour 24 with anything but 00:00.000) gives an Invalid Date. A day that the
  month does not have (February 30) rolls over into the next month, as in V8, the
  engine of Node.js on which the test suite runs.

  With another character in that place the string is outside the format, and ECMAScript
  lets the implementation fall back to rules of its own: the result is the engine's
  \<open>fallbackDate\<close>. (On V8, for one, a character U+0000 in that place gives a
  valid date.)
\<close>

definition digitVal :: "char \<Rightarrow> int" where
  "digitVal c = int (of_char c) - 48"

definition numOf :: "string \<Rightarrow> int" where
  "numOf s = foldl (\<lambda>n c. 10 * n + digitVal c) 0 s"

definition dayFromYear :: "int \<Rightarrow> int" where
  "dayFromYear y =
     365 * (y - 1970) + (y - 1969) div 4 - (y - 1901) div 100 + (y - 1601) div 400"

definition isLeap :: "int \<Rightarrow> bool" where
  "isLeap y = (y mod 4 = 0 \<and> (y mod 100 \<noteq> 0 \<or> y mod 400 = 0))"

definition monthOffset :: "int \<Rightarrow> int \<Rightarrow> int" where
  \<comment> \<open>days before the first of month \<open>m\<close> (1 to 12) in year \<open>y\<close>\<close>
  "monthOffset y m =
     [0, 31, 59, 90, 120, 151, 181, 212, 243, 273, 304, 334] ! nat (m - 1)
     + (if isLeap y \<and> 3 \<le> m then 1 else 0)"

definition inDateTimeFormat :: "string \<Rightarrow> bool" where
  \<comment> \<open>\<^verbatim>\<open>YYYY-MM-DDTHH:mm:ss.sssZ\<close>, digits in every field\<close>
  "inDateTimeFormat s = (timestampToken s = Some [] \<and> take 1 (drop 19 s) = ''.'')"

definition fieldsLegal :: "string \<Rightarrow> bool" where
  \<comment> \<open>every field of a string in the format is in its range\<close>
  "fieldsLegal s =
     (let month = numOf (take 2 (drop 5 s));
          day = numOf (take 2 (drop 8 s));
          hour = numOf (take 2 (drop 11 s));
          minute = numOf (take 2 (drop 14 s));
          second = numOf (take 2 (drop 17 s));
          ms = numOf (take 3 (drop 20 s))
      in 1 \<le> month \<and> month \<le> 12 \<and> 1 \<le> day \<and> day \<le> 31
         \<and> hour \<le> 24 \<and> minute \<le> 59 \<and> second \<le> 59
         \<and> (hour < 24 \<or> (minute = 0 \<and> second = 0 \<and> ms = 0)))"

definition timeValue :: "string \<Rightarrow> int" where
  \<comment> \<open>milliseconds since the epoch of a string in the format with legal fields\<close>
  "timeValue s =
     (let year = numOf (take 4 s);
          month = numOf (take 2 (drop 5 s));
          day = numOf (take 2 (drop 8 s));
          hour = numOf (take 2 (drop 11 s));
          minute = numOf (take 2 (drop 14 s));
          second = numOf (take 2 (drop 17 s));
          ms = numOf (take 3 (drop 20 s))
      in (dayFromYear year + monthOffset year month + day - 1) * 86400000
         + hour * 3600000 + minute * 60000 + second * 1000 + ms)"

definition newDate :: "engine \<Rightarrow> string \<Rightarrow> int option" where
  "newDate eng s =
     (if \<not> inDateTimeFormat s then fallbackDate eng s
      else if fieldsLegal s then Some (timeValue s)
      else None)"

subsection \<open>parseLogEntries\<close>

fun parseLines :: "engine \<Rightarrow> string list \<Rightarrow> entry list \<Rightarrow> entry list" where
  \<comment> \<open>the loop over \<^verbatim>\<open>lines\<close>, with the array \<^verbatim>\<open>entries\<close> built so far\<close>
  "parseLines eng [] entries = entries"
| "parseLines eng (line # lines) entries =
     (case matchLog line of
        None \<Rightarrow> parseLines eng lines entries
      | Some (timestampStr, ev, details) \<Rightarrow>
          parseLines eng lines
            (entries @ [\<lparr>timestamp = newDate eng timestampStr,
                         event = (case details of
                                    None \<Rightarrow> ev
                                  | Some d \<Rightarrow> if d = [] then ev else ev @ '' '' @ d)\<rparr>]))"

definition parseLogEntries :: "engine \<Rightarrow> string \<Rightarrow> entry list" where
  "parseLogEntries eng logContent =
     parseLines eng (filter (\<lambda>line. trim line \<noteq> []) (splitLines logContent)) []"

subsection \<open>Comparisons of numbers\<close>

fun numberGe :: "number \<Rightarrow> int \<Rightarrow> bool" where
  \<comment> \<open>\<^verbatim>\<open>x >= k\<close> for a number \<open>x\<close> and an integer \<open>k\<close>; false when \<open>x\<close> is NaN\<close>
  "numberGe (Finite r) k = (real_of_int k \<le> r)"
| "numberGe PlusInfinity k = True"
| "numberGe MinusInfinity k = False"
| "numberGe NaN k = False"

fun numberLe :: "number \<Rightarrow> int \<Rightarrow> bool" where
  \<comment> \<open>\<^verbatim>\<open>x <= k\<close> for a number \<open>x\<close> and an integer \<open>k\<close>; false when \<open>x\<close> is NaN\<close>
  "numberLe (Finite r) k = (r \<le> real_of_int k)"
| "numberLe PlusInfinity k = False"
| "numberLe MinusInfinity k = True"
| "numberLe NaN k = False"

fun numSub :: "int option \<Rightarrow> int option \<Rightarrow> int option" where
  \<comment> \<open>\<^verbatim>\<open>a - b\<close> on two time values\<close>
  "numSub (Some a) (Some b) = Some (a - b)"
| "numSub _ _ = None"

fun numLe :: "int option \<Rightarrow> number \<Rightarrow> bool" where
  \<comment> \<open>\<^verbatim>\<open>a <= w\<close> for a difference \<open>a\<close> of time values; false when \<open>a\<close> or \<open>w\<close> is NaN\<close>
  "numLe (Some a) w = numberGe w a"
| "numLe None w = False"

subsection \<open>The sort\<close>

text \<open>
  \<^verbatim>\<open>logEntries.sort((a, b) => a.timestamp.getTime() - b.timestamp.getTime())\<close>.
  ECMAScript's sort is stable. When every timestamp is valid the comparator is
  consistent and there is one arrangement the sort can leave: the stable ascending one,
  computed here by inserting each record before the first one it does not exceed. When
  a timestamp is an Invalid Date the comparator returns NaN for it and is not
  consistent; ECMAScript then leaves the order to the implementation, and the array is
  as the engine's \<open>inconsistentSort\<close> leaves it. A sort only rearranges: an
  \<open>inconsistentSort\<close> whose result is not a rearrangement of the array is read as
  leaving the array as it is, so that the engines stand for the rearrangements and
  nothing else.
\<close>

definition compareEntries :: "entry \<Rightarrow> entry \<Rightarrow> int option" where
  \<comment> \<open>the comparator\<close>
  "compareEntries a b = numSub (timestamp a) (timestamp b)"

definition sortCompare :: "entry \<Rightarrow> entry \<Rightarrow> int" where
  \<comment> \<open>the comparator's result as the sort reads it: NaN as \<open>+0\<close>\<close>
  "sortCompare a b = (case compareEntries a b of None \<Rightarrow> 0 | Some v \<Rightarrow> v)"

fun insertEntry :: "entry \<Rightarrow> entry list \<Rightarrow> entry list" where
  "insertEntry x [] = [x]"
| "insertEntry x (y # ys) =
     (if 0 < sortCompare x y then y # insertEntry x ys else x # y # ys)"

definition insertionSort :: "entry list \<Rightarrow> entry list" where
  "insertionSort xs = foldr insertEntry xs []"

definition sortEntries :: "engine \<Rightarrow> entry list \<Rightarrow> entry list" where
  "sortEntries eng xs =
     (if list_all (\<lambda>e. timestamp e \<noteq> None) xs then insertionSort xs
      else if mset (inconsistentSort eng xs) = mset xs then inconsistentSort eng xs
      else xs)"

subsection \<open>analyzeLogPatterns\<close>

definition elemAt :: "'a list \<Rightarrow> int \<Rightarrow> error + 'a" where
  \<comment> \<open>\<^verbatim>\<open>xs[i].field\<close>: a TypeError out of range\<close>
  "elemAt xs i = (if 0 \<le> i \<and> i < int (length xs) then Inr (xs ! nat i) else Inl TypeError)"

function innerLoop ::
  "entry list \<Rightarrow> int option \<Rightarrow> number \<Rightarrow> nat \<Rightarrow> entry list \<Rightarrow> error + entry list" where
  \<comment> \<open>the loop over \<open>j\<close>, with \<^verbatim>\<open>currentSequence\<close> built so far\<close>
  "innerLoop logEntries startTime0 timeWindowMs j currentSequence =
     (if j < length logEntries then
        (case elemAt logEntries (int j) of
           Inl e \<Rightarrow> Inl e
         | Inr ej \<Rightarrow>
             (let timeDiff = numSub (timestamp ej) startTime0
              in if numLe timeDiff timeWindowMs
                 then innerLoop logEntries startTime0 timeWindowMs (j + 1)
                        (currentSequence @ [ej])
                 else Inr currentSequence))
      else Inr currentSequence)"
  by pat_completeness auto
termination
  by (relation "measure (\<lambda>(logEntries, s, w, j, cur). length logEntries - j)") auto

function outerLoop ::
  "entry list \<Rightarrow> number \<Rightarrow> number \<Rightarrow> nat \<Rightarrow> patternWindow list
     \<Rightarrow> error + patternWindow list" where
  \<comment> \<open>the loop over \<open>i\<close>, with \<^verbatim>\<open>patterns\<close> built so far\<close>
  "outerLoop logEntries timeWindowMs minSequenceLength i patterns =
     (if i < length logEntries then
        (case elemAt logEntries (int i) of
           Inl e \<Rightarrow> Inl e
         | Inr ei \<Rightarrow>
             (case innerLoop logEntries (timestamp ei) timeWindowMs (i + 1) [ei] of
                Inl e \<Rightarrow> Inl e
              | Inr currentSequence \<Rightarrow>
                  if numberLe minSequenceLength (int (length currentSequence)) then
                    (case elemAt currentSequence 0 of
                       Inl e \<Rightarrow> Inl e
                     | Inr first \<Rightarrow>
                         (case elemAt currentSequence (int (length currentSequence) - 1) of
                            Inl e \<Rightarrow> Inl e
                          | Inr lst \<Rightarrow>
                              outerLoop logEntries timeWindowMs minSequenceLength (i + 1)
                                (patterns @ [\<lparr>events = map event currentSequence,
                                              startTime = timestamp first,
                                              endTime = timestamp lst\<rparr>])))
                  else outerLoop logEntries timeWindowMs minSequenceLength (i + 1) patterns))
      else Inr patterns)"
  by pat_completeness auto
termination
  by (relation "measure (\<lambda>(logEntries, w, m, i, ps). length logEntries - i)") auto

definition analyzeLogPatterns ::
  "engine \<Rightarrow> string \<Rightarrow> number \<Rightarrow> number \<Rightarrow> error + patternWindow list" where
  "analyzeLogPatterns eng logContent timeWindowMs minSequenceLength =
     outerLoop (sortEntries eng (parseLogEntries eng logContent))
       timeWindowMs minSequenceLength 0 []"

definition analyzeLogPatternsDefault ::
  "engine \<Rightarrow> string \<Rightarrow> number \<Rightarrow> error + patternWindow list" where
  \<comment> \<open>the call without the third argument: \<^verbatim>\<open>minSequenceLength = 2\<close>\<close>
  "analyzeLogPatternsDefault eng logContent timeWindowMs =
     analyzeLogPatterns eng logContent timeWindowMs (Finite 2)"

subsection \<open>The detection algorithm in the specification's words\<close>

text \<open>
  The specification describes the detector by indices into the sorted sequence: the run
  of anchor \<open>i\<close> is record \<open>i\<close> followed by the records \<open>i+1, i+2, \<dots>\<close> up to
  the first one whose offset from the anchor exceeds the window; the anchor emits one
  window if the run is long enough; windows come in anchor order. These definitions
  follow those words, to be compared with the loops above.
\<close>

definition inWindow :: "int option \<Rightarrow> number \<Rightarrow> entry \<Rightarrow> bool" where
  \<comment> \<open>\<^verbatim>\<open>timestamp[j] - timestamp[i] <= timeWindowMs\<close>\<close>
  "inWindow anchorTime timeWindowMs r = numLe (numSub (timestamp r) anchorTime) timeWindowMs"

definition specRun :: "entry list \<Rightarrow> number \<Rightarrow> nat \<Rightarrow> entry list" where
  "specRun s timeWindowMs i =
     s ! i # takeWhile (inWindow (timestamp (s ! i)) timeWindowMs) (drop (Suc i) s)"

definition windowAt :: "entry list \<Rightarrow> number \<Rightarrow> nat \<Rightarrow> patternWindow" where
  "windowAt s timeWindowMs i =
     \<lparr>events = map event (specRun s timeWindowMs i),
      startTime = timestamp (s ! i),
      endTime = timestamp (last (specRun s timeWindowMs i))\<rparr>"

definition specWindow :: "entry list \<Rightarrow> number \<Rightarrow> number \<Rightarrow> nat \<Rightarrow> patternWindow list" where
  "specWindow s timeWindowMs minSequenceLength i =
     (if numberLe minSequenceLength (int (length (specRun s timeWindowMs i)))
      then [windowAt s timeWindowMs i]
      else [])"

definition specWindows :: "entry list \<Rightarrow> number \<Rightarrow> number \<Rightarrow> patternWindow list" where
  "specWindows s timeWindowMs minSequenceLength =
     concat (map (specWindow s timeWindowMs minSequenceLength) [0..<length s])"

fun numLeq :: "int option \<Rightarrow> int option \<Rightarrow> bool" where
  \<comment> \<open>\<^verbatim>\<open>a <= b\<close> on two time values: false when either is NaN\<close>
  "numLeq (Some a) (Some b) = (a \<le> b)"
| "numLeq _ _ = False"

definition ascending :: "entry list \<Rightarrow> bool" where
  \<comment> \<open>sorted ascending by timestamp\<close>
  "ascending s = sorted_wrt (\<lambda>a b. numLeq (timestamp a) (timestamp b)) s"

definition validPairAscending :: "entry \<Rightarrow> entry \<Rightarrow> bool" where
  \<comment> \<open>two records are in order unless both timestamps are valid and the first is later\<close>
  "validPairAscending a b =
     (case (timestamp a, timestamp b) of
        (Some x, Some y) \<Rightarrow> x \<le> y
      | _ \<Rightarrow> True)"

definition neighboursInOrder :: "entry list \<Rightarrow> bool" where
  \<comment> \<open>no valid record stands directly before an earlier valid record\<close>
  "neighboursInOrder s = successively validPairAscending s"

subsection \<open>Inputs used below\<close>

definition sampleLog :: string where
  \<comment> \<open>the six-line log of the test suite\<close>
  "sampleLog =
     ''2023-04-15T14:32:15.123Z LOGIN User logged in'' @ [CHR 0x0A] @
     ''2023-04-15T14:32:17.456Z NAVIGATE User navigated to dashboard'' @ [CHR 0x0A] @
     ''2023-04-15T14:32:19.789Z CLICK User clicked on settings'' @ [CHR 0x0A] @
     ''2023-04-15T14:32:45.123Z LOGOUT User logged out'' @ [CHR 0x0A] @
     ''2023-04-15T14:35:15.123Z LOGIN Another user logged in'' @ [CHR 0x0A] @
     ''2023-04-15T14:35:18.456Z ERROR Failed to load dashboard''"

definition invalidDateLog :: string where
  \<comment> \<open>one line that the regular expression accepts, with month 13\<close>
  "invalidDateLog = ''2023-13-01T00:00:00.000Z BAD''"


definition unorderedLog :: string where
  \<comment> \<open>a line with month 13 between two valid lines, the later one first\<close>
  "unorderedLog =
     ''2023-04-15T00:00:03.000Z A'' @ [CHR 0x0A] @
     ''2023-13-01T00:00:00.000Z B'' @ [CHR 0x0A] @
     ''2023-04-15T00:00:01.000Z C''"

definition reversedLog :: string where
  \<comment> \<open>two valid lines, the later one first\<close>
  "reversedLog =
     ''2023-04-15T00:00:03.000Z A'' @ [CHR 0x0A] @
     ''2023-04-15T00:00:01.000Z C''"


definition oneLineLog :: string where
  "oneLineLog = ''2023-04-15T14:32:15.123Z LOGIN''"

definition insertionEngine :: engine where
  \<comment> \<open>an implementation whose \<^verbatim>\<open>Date\<close> rejects every string outside the format and whose
      sort, on an inconsistent comparator too, inserts each record before the first one
      it does not exceed\<close>
  "insertionEngine = \<lparr>fallbackDate = (\<lambda>s. None), inconsistentSort = insertionSort\<rparr>"

section \<open>Numbers\<close>

lemma numberLe_mono: "numberLe x a \<Longrightarrow> a \<le> b \<Longrightarrow> numberLe x b"
proof (cases x)
  case (Finite r)
  assume "numberLe x a" and "a \<le> b"
  then have "r \<le> real_of_int a" and "real_of_int a \<le> real_of_int b"
    using Finite by simp_all
  then show ?thesis using Finite by simp
qed simp_all

lemma numberGe_numberLe: "numberGe x a \<Longrightarrow> numberLe x b \<Longrightarrow> a \<le> b"
proof (cases x)
  case (Finite r)
  assume "numberGe x a" and "numberLe x b"
  then have "real_of_int a \<le> r" and "r \<le> real_of_int b"
    using Finite by simp_all
  then have "real_of_int a \<le> real_of_int b" by (rule order_trans)
  then show ?thesis by simp
qed simp_all

section \<open>The loops compute the specification's windows\<close>

declare innerLoop.simps [simp del] outerLoop.simps [simp del]

lemma elemAt_nth: "i < length xs \<Longrightarrow> elemAt xs (int i) = Inr (xs ! i)"
  by (simp add: elemAt_def)

lemma elemAt_zero: "elemAt (x # xs) 0 = Inr x"
  by (simp add: elemAt_def)

lemma elemAt_last: "xs \<noteq> [] \<Longrightarrow> elemAt xs (int (length xs) - 1) = Inr (last xs)"
  by (cases xs) (simp_all add: elemAt_def last_conv_nth)

lemma innerLoop_eq:
  "innerLoop s st tw j cur = Inr (cur @ takeWhile (inWindow st tw) (drop j s))"
proof (induction s st tw j cur rule: innerLoop.induct)
  case (1 s st tw j cur)
  show ?case
  proof (cases "j < length s")
    case True
    then have d: "drop j s = s ! j # drop (Suc j) s"
      by (simp add: Cons_nth_drop_Suc)
    show ?thesis
      using True 1 by (subst innerLoop.simps) (simp add: elemAt_nth d inWindow_def [symmetric])
  next
    case False
    then show ?thesis by (subst innerLoop.simps) simp
  qed
qed

lemma innerLoop_run:
  "i < length s \<Longrightarrow> innerLoop s (timestamp (s ! i)) tw (Suc i) [s ! i] = Inr (specRun s tw i)"
  by (simp add: innerLoop_eq specRun_def)

lemma outerLoop_eq:
  "outerLoop s tw msl i ps = Inr (ps @ concat (map (specWindow s tw msl) [i..<length s]))"
proof (induction s tw msl i ps rule: outerLoop.induct)
  case (1 s tw msl i ps)
  show ?case
  proof (cases "i < length s")
    case True
    have ati: "elemAt s (int i) = Inr (s ! i)"
      using True by (rule elemAt_nth)
    have run: "innerLoop s (timestamp (s ! i)) tw (i + 1) [s ! i] = Inr (specRun s tw i)"
      using True innerLoop_run by simp
    have first: "elemAt (specRun s tw i) 0 = Inr (s ! i)"
      by (simp add: specRun_def elemAt_zero)
    have lst: "elemAt (specRun s tw i) (int (length (specRun s tw i)) - 1) = Inr (last (specRun s tw i))"
      by (rule elemAt_last) (simp add: specRun_def)
    have up: "[i..<length s] = i # [Suc i..<length s]"
      using True by (simp add: upt_conv_Cons)
    show ?thesis
    proof (cases "numberLe msl (int (length (specRun s tw i)))")
      case long: True
      have "outerLoop s tw msl i ps = outerLoop s tw msl (i + 1) (ps @ [windowAt s tw i])"
        using True long run
        by (subst outerLoop.simps) (simp add: ati first lst windowAt_def)
      also have "\<dots> = Inr ((ps @ [windowAt s tw i])
                  @ concat (map (specWindow s tw msl) [i + 1..<length s]))"
        unfolding windowAt_def by (rule "1.IH"(1) [OF True ati run long first lst])
      finally show ?thesis
        using long by (simp add: up specWindow_def [of s tw msl i])
    next
      case short: False
      have "outerLoop s tw msl i ps = outerLoop s tw msl (i + 1) ps"
        using True short run by (subst outerLoop.simps) (simp add: ati)
      also have "\<dots> = Inr (ps @ concat (map (specWindow s tw msl) [i + 1..<length s]))"
        by (rule "1.IH"(2) [OF True ati run short])
      finally show ?thesis
        using short by (simp add: up specWindow_def [of s tw msl i])
    qed
  next
    case False
    then show ?thesis by (subst outerLoop.simps) simp
  qed
qed

lemma analyze_eq:
  "analyzeLogPatterns eng c tw msl =
     Inr (specWindows (sortEntries eng (parseLogEntries eng c)) tw msl)"
  by (simp add: analyzeLogPatterns_def outerLoop_eq specWindows_def)

lemma in_specWindows:
  "w \<in> set (specWindows s tw msl) \<longleftrightarrow>
     (\<exists>i<length s. numberLe msl (int (length (specRun s tw i))) \<and> w = windowAt s tw i)"
  by (auto simp: specWindows_def specWindow_def split: if_splits)

lemma specRun_length_pos: "1 \<le> int (length (specRun s tw i))"
  by (simp add: specRun_def)

lemma inWindow_anchor_valid: "inWindow a tw r \<Longrightarrow> a \<noteq> None"
  by (cases a; cases "timestamp r") (simp_all add: inWindow_def)

lemma specRun_long_valid:
  assumes "2 \<le> length (specRun s tw i)"
  shows "timestamp (s ! i) \<noteq> None"
proof -
  let ?P = "inWindow (timestamp (s ! i)) tw"
  from assms have "takeWhile ?P (drop (Suc i) s) \<noteq> []"
    by (auto simp: specRun_def)
  then obtain r where "r \<in> set (takeWhile ?P (drop (Suc i) s))"
    by (cases "takeWhile ?P (drop (Suc i) s)") auto
  then have "?P r" by (rule set_takeWhileD [THEN conjunct2])
  then show ?thesis by (rule inWindow_anchor_valid)
qed

lemma specRun_last_inWindow:
  assumes "numberGe tw 0" and "timestamp (s ! i) \<noteq> None"
  shows "inWindow (timestamp (s ! i)) tw (last (specRun s tw i))"
proof (cases "takeWhile (inWindow (timestamp (s ! i)) tw) (drop (Suc i) s) = []")
  case True
  then have "last (specRun s tw i) = s ! i" by (simp add: specRun_def)
  then show ?thesis using assms by (auto simp: inWindow_def)
next
  case False
  then have "last (specRun s tw i) \<in> set (takeWhile (inWindow (timestamp (s ! i)) tw) (drop (Suc i) s))"
    by (simp add: specRun_def)
  then show ?thesis by (rule set_takeWhileD [THEN conjunct2])
qed

lemma specWindows_low:
  assumes "numberLe msl 1"
  shows "specWindows s tw msl = map (windowAt s tw) [0..<length s]"
proof -
  have "specWindow s tw msl i = [windowAt s tw i]" for i
    using numberLe_mono [OF assms specRun_length_pos [of s tw i]]
    by (simp add: specWindow_def)
  then have "specWindow s tw msl = (\<lambda>i. [windowAt s tw i])"
    by (intro ext)
  then show ?thesis by (simp add: specWindows_def)
qed

lemma windowAt_singleton:
  assumes "length (events (windowAt s tw i)) = 1"
  shows "endTime (windowAt s tw i) = startTime (windowAt s tw i)"
proof -
  from assms have "takeWhile (inWindow (timestamp (s ! i)) tw) (drop (Suc i) s) = []"
    by (simp add: windowAt_def specRun_def)
  then show ?thesis by (simp add: windowAt_def specRun_def)
qed

section \<open>The sort\<close>

lemma mset_insertEntry: "mset (insertEntry x ys) = add_mset x (mset ys)"
  by (induction ys) simp_all

lemma mset_insertionSort: "mset (insertionSort xs) = mset xs"
  by (induction xs) (simp_all add: insertionSort_def mset_insertEntry)

lemma insertEntry_insort:
  assumes "timestamp x \<noteq> None" and "\<forall>y\<in>set ys. timestamp y \<noteq> None"
  shows "insertEntry x ys = insort_key (\<lambda>e. the (timestamp e)) x ys"
  using assms by (induction ys) (auto simp: sortCompare_def compareEntries_def)

lemma insertionSort_sort_key:
  assumes "\<forall>y\<in>set xs. timestamp y \<noteq> None"
  shows "insertionSort xs = sort_key (\<lambda>e. the (timestamp e)) xs"
  using assms
proof (induction xs)
  case Nil
  show ?case by (simp add: insertionSort_def)
next
  case (Cons x xs)
  then have IH: "insertionSort xs = sort_key (\<lambda>e. the (timestamp e)) xs" by simp
  have "\<forall>y\<in>set (sort_key (\<lambda>e. the (timestamp e)) xs). timestamp y \<noteq> None"
    using Cons.prems by simp
  then have "insertEntry x (sort_key (\<lambda>e. the (timestamp e)) xs) =
             insort_key (\<lambda>e. the (timestamp e)) x (sort_key (\<lambda>e. the (timestamp e)) xs)"
    using Cons.prems by (intro insertEntry_insort) simp_all
  then show ?case using IH by (simp add: insertionSort_def sort_key_def)
qed

lemma insertionSort_ascending:
  assumes "\<forall>y\<in>set xs. timestamp y \<noteq> None"
  shows "ascending (insertionSort xs)"
proof -
  let ?k = "\<lambda>e. the (timestamp e)"
  have "sorted (map ?k (sort_key ?k xs))" by (rule sorted_sort_key)
  then have "sorted_wrt (\<lambda>a b. ?k a \<le> ?k b) (sort_key ?k xs)"
    by (simp add: sorted_map)
  moreover have "numLeq (timestamp a) (timestamp b)"
    if "a \<in> set (sort_key ?k xs)" "b \<in> set (sort_key ?k xs)" "?k a \<le> ?k b" for a b
    using that assms by (cases "timestamp a"; cases "timestamp b") auto
  ultimately have "sorted_wrt (\<lambda>a b. numLeq (timestamp a) (timestamp b)) (sort_key ?k xs)"
    by (rule sorted_wrt_mono_rel [rotated])
  then show ?thesis using assms by (simp add: ascending_def insertionSort_sort_key)
qed

lemma hd_insertEntry: "hd (insertEntry x ys) = x \<or> (ys \<noteq> [] \<and> hd (insertEntry x ys) = hd ys)"
  by (cases ys) simp_all

lemma successively_insertEntry:
  assumes "successively validPairAscending ys"
  shows "successively validPairAscending (insertEntry x ys)"
  using assms
proof (induction ys)
  case Nil
  show ?case by simp
next
  case (Cons y ys)
  show ?case
  proof (cases "0 < sortCompare x y")
    case True
    then have yx: "validPairAscending y x"
      by (cases "timestamp x"; cases "timestamp y")
         (simp_all add: validPairAscending_def sortCompare_def compareEntries_def)
    have "successively validPairAscending ys"
      using Cons.prems by (auto simp: successively_Cons)
    then have tl: "successively validPairAscending (insertEntry x ys)"
      by (rule Cons.IH)
    have "validPairAscending y (hd (insertEntry x ys))"
      using hd_insertEntry [of x ys] yx Cons.prems by (auto simp: successively_Cons)
    then show ?thesis using True tl by (simp add: successively_Cons)
  next
    case False
    then have "validPairAscending x y"
      by (cases "timestamp x"; cases "timestamp y")
         (simp_all add: validPairAscending_def sortCompare_def compareEntries_def)
    then show ?thesis using False Cons.prems by (simp add: successively_Cons)
  qed
qed

lemma neighboursInOrder_insertionSort: "neighboursInOrder (insertionSort xs)"
  unfolding neighboursInOrder_def
  by (induction xs) (simp_all add: insertionSort_def successively_insertEntry)

lemma mset_sortEntries: "mset (sortEntries eng xs) = mset xs"
  by (simp add: sortEntries_def mset_insertionSort)

lemma length_sortEntries: "length (sortEntries eng xs) = length xs"
  using mset_sortEntries [of eng xs] by (metis size_mset)

lemma sortEntries_valid:
  assumes "list_all (\<lambda>e. timestamp e \<noteq> None) xs"
  shows "ascending (sortEntries eng xs)"
    and "neighboursInOrder (sortEntries eng xs)"
  using assms
  by (simp_all add: sortEntries_def insertionSort_ascending
      neighboursInOrder_insertionSort list_all_iff)

lemma sortEntries_insertionEngine: "sortEntries insertionEngine xs = insertionSort xs"
  by (simp add: sortEntries_def insertionEngine_def mset_insertionSort)

lemma ascending_all_valid:
  assumes "ascending s" and "2 \<le> length s" and "e \<in> set s"
  shows "timestamp e \<noteq> None"
proof -
  from assms(3) obtain i where i: "i < length s" "s ! i = e"
    by (auto simp: in_set_conv_nth)
  from assms(2) i(1) obtain j where j: "j < length s" "j \<noteq> i"
    by (cases "i = 0") (auto intro: that [of 0] that [of 1])
  have all: "\<forall>a b. a < b \<longrightarrow> b < length s \<longrightarrow> numLeq (timestamp (s ! a)) (timestamp (s ! b))"
    using assms(1) by (simp add: ascending_def sorted_wrt_iff_nth_less)
  show ?thesis
  proof (cases "i < j")
    case True
    then have "numLeq (timestamp (s ! i)) (timestamp (s ! j))" using all j(1) by blast
    then show ?thesis using i(2) by (cases "timestamp (s ! i)") auto
  next
    case False
    then have "j < i" using j(2) by simp
    then have "numLeq (timestamp (s ! j)) (timestamp (s ! i))" using all i(1) by blast
    then show ?thesis using i(2) by (cases "timestamp (s ! j)"; cases "timestamp (s ! i)") auto
  qed
qed

section \<open>A window of zero\<close>







section \<open>The parser\<close>










section \<open>Evaluation at the inputs used below\<close>

lemma sample_windows_2:
  "analyzeLogPatterns eng sampleLog (Finite 10000) (Finite 2) =
   Inr [\<lparr>events = [''LOGIN User logged in'', ''NAVIGATE User navigated to dashboard'',
                    ''CLICK User clicked on settings''],
         startTime = Some 1681569135123, endTime = Some 1681569139789\<rparr>,
        \<lparr>events = [''NAVIGATE User navigated to dashboard'',
                    ''CLICK User clicked on settings''],
         startTime = Some 1681569137456, endTime = Some 1681569139789\<rparr>,
        \<lparr>events = [''LOGIN Another user logged in'', ''ERROR Failed to load dashboard''],
         startTime = Some 1681569315123, endTime = Some 1681569318456\<rparr>]"
  by code_simp

lemma sample_windows_3:
  "analyzeLogPatterns eng sampleLog (Finite 10000) (Finite 3) =
   Inr [\<lparr>events = [''LOGIN User logged in'', ''NAVIGATE User navigated to dashboard'',
                    ''CLICK User clicked on settings''],
         startTime = Some 1681569135123, endTime = Some 1681569139789\<rparr>]"
  by code_simp

lemma sample_anchor_times:
  "newDate eng ''2023-04-15T14:32:15.123Z'' = Some 1681569135123"
  "newDate eng ''2023-04-15T14:35:15.123Z'' = Some 1681569315123"
  by code_simp+



lemma reversed_parsed:
  "parseLogEntries eng reversedLog =
     [\<lparr>timestamp = Some 1681516803000, event = ''A''\<rparr>,
      \<lparr>timestamp = Some 1681516801000, event = ''C''\<rparr>]"
  by code_simp

lemma reversed_sorted:
  "sortEntries eng (parseLogEntries eng reversedLog) =
     [\<lparr>timestamp = Some 1681516801000, event = ''C''\<rparr>,
      \<lparr>timestamp = Some 1681516803000, event = ''A''\<rparr>]"
  by code_simp

lemma reversed_windows_2:
  "analyzeLogPatterns eng reversedLog (Finite 10000) (Finite 2) =
   Inr [\<lparr>events = [''C'', ''A''],
         startTime = Some 1681516801000, endTime = Some 1681516803000\<rparr>]"
  by code_simp

lemma reversed_windows_1:
  "analyzeLogPatterns eng reversedLog (Finite 0) (Finite 1) =
   Inr [\<lparr>events = [''C''], startTime = Some 1681516801000, endTime = Some 1681516801000\<rparr>,
        \<lparr>events = [''A''], startTime = Some 1681516803000, endTime = Some 1681516803000\<rparr>]"
  by code_simp



lemma one_line_windows:
  "analyzeLogPatterns eng oneLineLog (Finite 10000) (Finite 1) =
   Inr [\<lparr>events = [''LOGIN''],
         startTime = Some 1681569135123, endTime = Some 1681569135123\<rparr>]"
  by code_simp

lemma one_line_windows_zero:
  "analyzeLogPatterns eng oneLineLog (Finite 10000) (Finite 0) =
   Inr [\<lparr>events = [''LOGIN''],
         startTime = Some 1681569135123, endTime = Some 1681569135123\<rparr>]"
  by code_simp

lemma invalid_parsed:
  "parseLogEntries eng invalidDateLog = [\<lparr>timestamp = None, event = ''BAD''\<rparr>]"
  by code_simp

lemma unordered_parsed:
  "parseLogEntries eng unorderedLog =
     [\<lparr>timestamp = Some 1681516803000, event = ''A''\<rparr>,
      \<lparr>timestamp = None, event = ''B''\<rparr>,
      \<lparr>timestamp = Some 1681516801000, event = ''C''\<rparr>]"
  by code_simp


lemma singleton_invalid_windows:
  "specWindows [\<lparr>timestamp = None, event = ''BAD''\<rparr>] (Finite 0) (Finite 1) =
     [\<lparr>events = [''BAD''], startTime = None, endTime = None\<rparr>]"
  by (simp add: specWindows_def specWindow_def windowAt_def specRun_def)

lemma unordered_insertion_sorted:
  "insertionSort
     [\<lparr>timestamp = Some 1681516803000, event = ''A''\<rparr>,
      \<lparr>timestamp = None, event = ''B''\<rparr>,
      \<lparr>timestamp = Some 1681516801000, event = ''C''\<rparr>] =
     [\<lparr>timestamp = Some 1681516803000, event = ''A''\<rparr>,
      \<lparr>timestamp = None, event = ''B''\<rparr>,
      \<lparr>timestamp = Some 1681516801000, event = ''C''\<rparr>]"
  by code_simp

lemma unordered_windows:
  "specWindows
     [\<lparr>timestamp = Some 1681516803000, event = ''A''\<rparr>,
      \<lparr>timestamp = None, event = ''B''\<rparr>,
      \<lparr>timestamp = Some 1681516801000, event = ''C''\<rparr>] (Finite 10000) (Finite 2) = []"
  "specWindows
     [\<lparr>timestamp = Some 1681516803000, event = ''A''\<rparr>,
      \<lparr>timestamp = None, event = ''B''\<rparr>,
      \<lparr>timestamp = Some 1681516801000, event = ''C''\<rparr>] (Finite 0) (Finite 2) = []"
  by code_simp+

lemma unordered_insertion:
  "sortEntries insertionEngine (parseLogEntries insertionEngine unorderedLog) =
     [\<lparr>timestamp = Some 1681516803000, event = ''A''\<rparr>,
      \<lparr>timestamp = None, event = ''B''\<rparr>,
      \<lparr>timestamp = Some 1681516801000, event = ''C''\<rparr>]"
  by (simp add: sortEntries_insertionEngine unordered_parsed unordered_insertion_sorted)

section \<open>The claims\<close>

subsection \<open>C1: the detection algorithm\<close>

text \<open>
  C1, as the code has it. For every input and every implementation,
  \<^verbatim>\<open>analyzeLogPatterns\<close> returns the windows that the specification's algorithm builds
  from the array as the sort has left it: for each index \<open>i\<close> in order, the run of
  record \<open>i\<close> and the following records up to the first one outside the window,
  emitted exactly when the run has at least \<^verbatim>\<open>minSequenceLength\<close> records, with the
  run's events, the anchor's timestamp and the last record's timestamp. That array is a
  rearrangement of the parsed records, and it is ascending by timestamp when every
  parsed timestamp is a valid date.
\<close>

theorem detection_algorithm:
  "analyzeLogPatterns eng c tw msl =
     Inr (specWindows (sortEntries eng (parseLogEntries eng c)) tw msl)
   \<and> mset (sortEntries eng (parseLogEntries eng c)) = mset (parseLogEntries eng c)
   \<and> (list_all (\<lambda>e. timestamp e \<noteq> None) (parseLogEntries eng c)
        \<longrightarrow> ascending (sortEntries eng (parseLogEntries eng c)))"
  by (simp add: analyze_eq mset_sortEntries sortEntries_valid)

text \<open>
  C1, witness: on every implementation the two valid lines of \<open>reversedLog\<close>, given later
  one first, come out ascending.
\<close>

theorem detection_algorithm_witness:
  "\<forall>eng. list_all (\<lambda>e. timestamp e \<noteq> None) (parseLogEntries eng reversedLog)
     \<and> \<not> ascending (parseLogEntries eng reversedLog)
     \<and> ascending (sortEntries eng (parseLogEntries eng reversedLog))
     \<and> sortEntries eng (parseLogEntries eng reversedLog) =
         [\<lparr>timestamp = Some 1681516801000, event = ''C''\<rparr>,
          \<lparr>timestamp = Some 1681516803000, event = ''A''\<rparr>]"
proof
  fix eng
  have valid: "list_all (\<lambda>e. timestamp e \<noteq> None) (parseLogEntries eng reversedLog)"
    by (simp add: reversed_parsed)
  have before: "\<not> ascending (parseLogEntries eng reversedLog)"
    by (simp add: reversed_parsed ascending_def)
  show "list_all (\<lambda>e. timestamp e \<noteq> None) (parseLogEntries eng reversedLog)
     \<and> \<not> ascending (parseLogEntries eng reversedLog)
     \<and> ascending (sortEntries eng (parseLogEntries eng reversedLog))
     \<and> sortEntries eng (parseLogEntries eng reversedLog) =
         [\<lparr>timestamp = Some 1681516801000, event = ''C''\<rparr>,
          \<lparr>timestamp = Some 1681516803000, event = ''A''\<rparr>]"
    using detection_algorithm [of eng reversedLog "Finite 10000" "Finite 2"] valid before
      reversed_sorted [of eng]
    by blast
qed

text \<open>
  C1 as stated, for every input, fails: a line that the regular expression accepts but
  whose date is invalid (month 13) makes the comparator return NaN, and the array does
  not come out ascending. In \<open>unorderedLog\<close> the middle record B is such a line: on no
  implementation is the sorted array ascending. On an implementation that sorts by
  insertion the array stays as parsed, since every comparison with B reads as 0 (V8
  leaves this array as it is, too): the records A (3 s) and C (1 s) are two seconds
  apart, but A stays before C, and no run of two is found in a window of ten seconds.
\<close>

theorem detection_algorithm_counterexample:
  "(\<forall>eng. parseLogEntries eng unorderedLog =
            [\<lparr>timestamp = Some 1681516803000, event = ''A''\<rparr>,
             \<lparr>timestamp = None, event = ''B''\<rparr>,
             \<lparr>timestamp = Some 1681516801000, event = ''C''\<rparr>]
        \<and> \<not> ascending (sortEntries eng (parseLogEntries eng unorderedLog)))
   \<and> sortEntries insertionEngine (parseLogEntries insertionEngine unorderedLog) =
        [\<lparr>timestamp = Some 1681516803000, event = ''A''\<rparr>,
         \<lparr>timestamp = None, event = ''B''\<rparr>,
         \<lparr>timestamp = Some 1681516801000, event = ''C''\<rparr>]
   \<and> analyzeLogPatterns insertionEngine unorderedLog (Finite 10000) (Finite 2) = Inr []"
proof -
  have general: "\<not> ascending (sortEntries eng (parseLogEntries eng unorderedLog))" for eng
  proof
    let ?s = "sortEntries eng (parseLogEntries eng unorderedLog)"
    let ?b = "\<lparr>timestamp = None, event = ''B''\<rparr>"
    assume a: "ascending ?s"
    have "length ?s = length (parseLogEntries eng unorderedLog)"
      by (rule length_sortEntries)
    then have len: "2 \<le> length ?s" by (simp add: unordered_parsed)
    have "?b \<in> set (parseLogEntries eng unorderedLog)" by (simp add: unordered_parsed)
    then have "?b \<in> set ?s" using mset_sortEntries [of eng] by (metis mset_eq_setD)
    then have "timestamp ?b \<noteq> None" using a len ascending_all_valid by blast
    then show False by simp
  qed
  have none: "analyzeLogPatterns insertionEngine unorderedLog (Finite 10000) (Finite 2) = Inr []"
    by (simp add: analyze_eq unordered_insertion unordered_windows)
  from general unordered_insertion none show ?thesis by (simp add: unordered_parsed)
qed

subsection \<open>C2: bounds of an emitted window\<close>

text \<open>
  C2, as the code has it. For every input and every \<^verbatim>\<open>timeWindowMs >= 0\<close>, every emitted
  window has at least \<^verbatim>\<open>minSequenceLength\<close> events, and
  \<^verbatim>\<open>endTime - startTime <= timeWindowMs\<close> holds for every emitted window whose
  \<^verbatim>\<open>startTime\<close> is a valid date; when \<^verbatim>\<open>minSequenceLength >= 2\<close> that is every emitted
  window.
\<close>

theorem window_bounds:
  assumes "numberGe tw 0"
  shows "\<exists>ws. analyzeLogPatterns eng c tw msl = Inr ws
           \<and> (\<forall>w\<in>set ws.
                 numberLe msl (int (length (events w)))
                 \<and> (startTime w \<noteq> None \<longrightarrow> numLe (numSub (endTime w) (startTime w)) tw)
                 \<and> (numberGe msl 2 \<longrightarrow> startTime w \<noteq> None))"
proof -
  let ?s = "sortEntries eng (parseLogEntries eng c)"
  have "numberLe msl (int (length (events w)))
        \<and> (startTime w \<noteq> None \<longrightarrow> numLe (numSub (endTime w) (startTime w)) tw)
        \<and> (numberGe msl 2 \<longrightarrow> startTime w \<noteq> None)"
    if "w \<in> set (specWindows ?s tw msl)" for w
  proof -
    from that obtain i
      where i: "numberLe msl (int (length (specRun ?s tw i)))" and w: "w = windowAt ?s tw i"
      by (auto simp: in_specWindows)
    have a: "numberLe msl (int (length (events w)))"
      using i by (simp add: w windowAt_def)
    have b: "numLe (numSub (endTime w) (startTime w)) tw" if "startTime w \<noteq> None"
      using specRun_last_inWindow [OF assms, of ?s i] that
      by (simp add: w windowAt_def inWindow_def)
    have c: "startTime w \<noteq> None" if "numberGe msl 2"
    proof -
      from that i have "2 \<le> int (length (specRun ?s tw i))" by (rule numberGe_numberLe)
      then have "2 \<le> length (specRun ?s tw i)" by simp
      then show ?thesis
        using specRun_long_valid [of ?s tw i] by (simp add: w windowAt_def)
    qed
    from a b c show ?thesis by blast
  qed
  then show ?thesis by (simp add: analyze_eq)
qed

text \<open>
  C2, witness: on every implementation \<open>reversedLog\<close> with a window of ten seconds and a
  minimum of two gives one window of two events, two seconds long.
\<close>

theorem window_bounds_witness:
  "numberGe (Finite 10000) 0
   \<and> (\<forall>eng. analyzeLogPatterns eng reversedLog (Finite 10000) (Finite 2) =
         Inr [\<lparr>events = [''C'', ''A''],
               startTime = Some 1681516801000, endTime = Some 1681516803000\<rparr>])
   \<and> numberLe (Finite 2) (int (length [''C'', ''A'']))
   \<and> numLe (numSub (Some 1681516803000) (Some 1681516801000)) (Finite 10000)"
proof -
  have h: "numberGe (Finite 10000) 0" by simp
  show ?thesis
    using window_bounds [OF h, of _ reversedLog "Finite 2"] reversed_windows_2 by simp
qed

text \<open>
  C2 as stated fails when \<^verbatim>\<open>minSequenceLength\<close> is 1 and a record has an invalid date:
  the record is emitted as a window of its own whose two times are Invalid Dates, their
  difference is NaN, and \<^verbatim>\<open>NaN <= 0\<close> is false. The log \<open>invalidDateLog\<close> has one such
  record, and the result is the same on every implementation.
\<close>

theorem window_bounds_counterexample:
  "(\<forall>eng. analyzeLogPatterns eng invalidDateLog (Finite 0) (Finite 1) =
            Inr [\<lparr>events = [''BAD''], startTime = None, endTime = None\<rparr>])
   \<and> \<not> numLe (numSub None None) (Finite 0)"
proof -
  have "analyzeLogPatterns eng invalidDateLog (Finite 0) (Finite 1) =
     Inr [\<lparr>events = [''BAD''], startTime = None, endTime = None\<rparr>]" for eng
  proof -
    have "mset (sortEntries eng (parseLogEntries eng invalidDateLog))
          = mset [\<lparr>timestamp = None, event = ''BAD''\<rparr>]"
      by (simp add: mset_sortEntries invalid_parsed)
    then have "sortEntries eng (parseLogEntries eng invalidDateLog)
               = [\<lparr>timestamp = None, event = ''BAD''\<rparr>]"
      by (simp add: mset_single_iff_right)
    then show ?thesis
      by (simp add: analyze_eq singleton_invalid_windows)
  qed
  then show ?thesis by simp
qed

subsection \<open>C3: the timestamp format\<close>

text \<open>
  C3. The separator between the seconds and the milliseconds is matched by an unescaped
  \<^verbatim>\<open>.\<close>, so a line with another character there is accepted and yields a record;
  its timestamp is what the implementation's \<^verbatim>\<open>Date\<close> makes of the token, an Invalid Date
  on an implementation that rejects it. A timestamp without milliseconds, or with an
  offset in place of \<^verbatim>\<open>Z\<close>, is dropped.
\<close>

theorem separator_not_checked:
  "parseLogEntries eng ''2023-04-15T14:32:15X123Z LOGIN'' =
     [\<lparr>timestamp = fallbackDate eng ''2023-04-15T14:32:15X123Z'', event = ''LOGIN''\<rparr>]
   \<and> parseLogEntries insertionEngine ''2023-04-15T14:32:15X123Z LOGIN'' =
       [\<lparr>timestamp = None, event = ''LOGIN''\<rparr>]
   \<and> parseLogEntries eng ''2023-04-15T14:32:15Z LOGIN'' = []
   \<and> parseLogEntries eng ''2023-04-15T14:32:15.123+01:00 LOGIN'' = []"
proof -
  have "parseLogEntries eng ''2023-04-15T14:32:15X123Z LOGIN'' =
     [\<lparr>timestamp = fallbackDate eng ''2023-04-15T14:32:15X123Z'', event = ''LOGIN''\<rparr>]"
    by code_simp
  moreover have "parseLogEntries insertionEngine ''2023-04-15T14:32:15X123Z LOGIN'' =
       [\<lparr>timestamp = None, event = ''LOGIN''\<rparr>]"
    by code_simp
  moreover have "parseLogEntries eng ''2023-04-15T14:32:15Z LOGIN'' = []"
    by code_simp
  moreover have "parseLogEntries eng ''2023-04-15T14:32:15.123+01:00 LOGIN'' = []"
    by code_simp
  ultimately show ?thesis by blast
qed

subsection \<open>C4: a minimum length of zero or less\<close>

text \<open>
  C4, as the code has it. \<^verbatim>\<open>analyzeLogPatterns\<close> does not check \<^verbatim>\<open>minSequenceLength\<close>:
  with a value of 0 or less it does not fail and returns the list it returns for 1.
\<close>

theorem nonpositive_minimum_not_rejected:
  assumes "numberLe msl 0"
  shows "\<exists>ws. analyzeLogPatterns eng c tw msl = Inr ws
           \<and> analyzeLogPatterns eng c tw (Finite 1) = Inr ws"
proof -
  have "numberLe msl 1" using assms by (rule numberLe_mono) simp
  then show ?thesis by (simp add: analyze_eq specWindows_low)
qed

text \<open>C4, witness: a one-line log with a minimum of \<open>-1\<close>, on every implementation.\<close>

theorem nonpositive_minimum_not_rejected_witness:
  "numberLe (Finite (- 1)) 0
   \<and> (\<forall>eng. analyzeLogPatterns eng oneLineLog (Finite 10000) (Finite (- 1)) =
         Inr [\<lparr>events = [''LOGIN''],
               startTime = Some 1681569135123, endTime = Some 1681569135123\<rparr>])"
proof -
  have h: "numberLe (Finite (- 1)) 0" by simp
  show ?thesis
    using nonpositive_minimum_not_rejected [OF h, of _ oneLineLog "Finite 10000"]
      one_line_windows
    by simp
qed

text \<open>
  C4 as stated fails: with a minimum of 0 a one-line log returns a list of one window,
  not an error, on every implementation.
\<close>

theorem nonpositive_minimum_counterexample:
  "\<forall>eng. analyzeLogPatterns eng oneLineLog (Finite 10000) (Finite 0) =
     Inr [\<lparr>events = [''LOGIN''],
           startTime = Some 1681569135123, endTime = Some 1681569135123\<rparr>]"
  using one_line_windows_zero by blast

subsection \<open>C5: the sample log\<close>

text \<open>
  C5. On the six-line sample log with a window of ten seconds: with a minimum of 2 the
  result has a window anchored at 14:32:15.123 whose events hold the LOGIN and the
  NAVIGATE line and not the LOGOUT line; with a minimum of 3 every window has at least
  three events and none is anchored at 14:35:15.123.
\<close>

theorem sample_log:
  "(\<exists>ws. analyzeLogPatterns eng sampleLog (Finite 10000) (Finite 2) = Inr ws
      \<and> (\<exists>w\<in>set ws. startTime w = newDate eng ''2023-04-15T14:32:15.123Z''
            \<and> ''LOGIN User logged in'' \<in> set (events w)
            \<and> ''NAVIGATE User navigated to dashboard'' \<in> set (events w)
            \<and> ''LOGOUT User logged out'' \<notin> set (events w)))
   \<and> (\<exists>ws. analyzeLogPatterns eng sampleLog (Finite 10000) (Finite 3) = Inr ws
      \<and> list_all (\<lambda>w. 3 \<le> length (events w)) ws
      \<and> \<not> list_ex (\<lambda>w. startTime w = newDate eng ''2023-04-15T14:35:15.123Z'') ws)"
  by (simp add: sample_windows_2 sample_windows_3 sample_anchor_times)

subsection \<open>C6: a window of zero\<close>



subsection \<open>C7: empty content\<close>

text \<open>
  C7. For empty content \<^verbatim>\<open>parseLogEntries\<close> returns the empty sequence and
  \<^verbatim>\<open>analyzeLogPatterns\<close> returns the empty list, without an error, for every
  \<^verbatim>\<open>timeWindowMs\<close> and every \<^verbatim>\<open>minSequenceLength\<close>.
\<close>

theorem empty_content:
  "parseLogEntries eng [] = [] \<and> analyzeLogPatterns eng [] tw msl = Inr []"
  by (simp add: analyze_eq parseLogEntries_def trim_def sortEntries_def insertionSort_def
      specWindows_def)

subsection \<open>C9: a minimum length of one or less\<close>

text \<open>
  C9. When \<^verbatim>\<open>minSequenceLength\<close> is 1, 0 or negative, \<^verbatim>\<open>analyzeLogPatterns\<close> does not
  fail and emits exactly one window per parsed record: one for each record of the
  sorted array, in the array's order, and the sorted array is a rearrangement of the
  parsed records. The window of record \<open>i\<close> has the events of the run that starts at
  \<open>i\<close>, starts at record \<open>i\<close>'s timestamp and ends at the timestamp of the run's last
  record; so the anchors of the windows (start time and first event) are the records
  of the sorted array. A window with one event ends when it starts.
\<close>

theorem low_minimum_one_window_per_record:
  assumes "numberLe msl 1"
  shows "\<exists>ws. analyzeLogPatterns eng c tw msl = Inr ws
           \<and> ws = map (windowAt (sortEntries eng (parseLogEntries eng c)) tw)
                    [0..<length (sortEntries eng (parseLogEntries eng c))]
           \<and> length ws = length (parseLogEntries eng c)
           \<and> map (\<lambda>w. \<lparr>timestamp = startTime w, event = hd (events w)\<rparr>) ws
               = sortEntries eng (parseLogEntries eng c)
           \<and> mset (map (\<lambda>w. \<lparr>timestamp = startTime w, event = hd (events w)\<rparr>) ws)
               = mset (parseLogEntries eng c)
           \<and> (\<forall>w\<in>set ws. length (events w) = 1 \<longrightarrow> endTime w = startTime w)"
proof -
  let ?p = "parseLogEntries eng c"
  let ?s = "sortEntries eng ?p"
  let ?ws = "map (windowAt ?s tw) [0..<length ?s]"
  have res: "analyzeLogPatterns eng c tw msl = Inr ?ws"
    using assms by (simp add: analyze_eq specWindows_low)
  have "map (\<lambda>w. \<lparr>timestamp = startTime w, event = hd (events w)\<rparr>) ?ws
        = map (\<lambda>i. ?s ! i) [0..<length ?s]"
    by (simp add: windowAt_def specRun_def)
  also have "\<dots> = ?s" by (rule map_nth)
  finally have anchors: "map (\<lambda>w. \<lparr>timestamp = startTime w, event = hd (events w)\<rparr>) ?ws = ?s" .
  have count: "length ?ws = length ?p"
    by (simp add: length_sortEntries)
  have records: "mset (map (\<lambda>w. \<lparr>timestamp = startTime w, event = hd (events w)\<rparr>) ?ws)
                 = mset ?p"
    by (simp only: anchors mset_sortEntries)
  have single: "\<forall>w\<in>set ?ws. length (events w) = 1 \<longrightarrow> endTime w = startTime w"
    using windowAt_singleton by auto
  from res anchors count records single show ?thesis by blast
qed

text \<open>
  C9, witness: on every implementation \<open>reversedLog\<close> with a window of zero and a
  minimum of 1 gives two windows of one event each, anchored at its two records in
  time order.
\<close>

theorem low_minimum_one_window_per_record_witness:
  "numberLe (Finite 1) 1
   \<and> (\<forall>eng. analyzeLogPatterns eng reversedLog (Finite 0) (Finite 1) =
            Inr [\<lparr>events = [''C''],
                  startTime = Some 1681516801000, endTime = Some 1681516801000\<rparr>,
                 \<lparr>events = [''A''],
                  startTime = Some 1681516803000, endTime = Some 1681516803000\<rparr>]
        \<and> length (parseLogEntries eng reversedLog) = 2)
   \<and> length [''C''] = 1"
proof -
  have h: "numberLe (Finite 1) 1" by simp
  show ?thesis
    using low_minimum_one_window_per_record [OF h, of _ reversedLog "Finite 0"]
      reversed_windows_1
    by (simp add: reversed_parsed)
qed

subsection \<open>C10: totality\<close>




end
